theory Spec2Isabelle
  imports Main "HOL-Library.Word" "HOL-Library.Signed_Division"
begin

unbundle bit_operations_syntax

section \<open>The SSD1306 monochrome OLED driver (package monochromeoled)\<close>

text \<open>
  A shallow embedding of \<^verbatim>\<open>monochromeoled.go\<close>.

  \<^item> Go's \<^verbatim>\<open>byte\<close> is \<open>8 word\<close>; the channels returned by \<^verbatim>\<open>Color.RGBA()\<close> are
    \<open>32 word\<close>, so that \<^verbatim>\<open>r+g+b\<close> wraps as \<^verbatim>\<open>uint32\<close> addition does.
  \<^item> Go's \<^verbatim>\<open>int\<close> is the 64-bit two's complement integer of the common platforms. A
    value is an \<open>int\<close> between \<open>MinInt\<close> and \<open>MaxInt\<close>, and every sum, difference and
    product of the driver is wrapped around by \<open>wrap\<close>, as the machine does on overflow.
  \<^item> Go's \<^verbatim>\<open>/\<close> truncates towards zero: it is \<open>sdiv\<close>, not \<open>div\<close>. Go's \<^verbatim>\<open>&\<close> on a
    negative \<^verbatim>\<open>int\<close> works on the two's complement representation, as \<open>AND\<close> on \<open>int\<close> does.
  \<^item> A slice is a list. An index outside the slice and a negative length given to
    \<^verbatim>\<open>make\<close> panic; a panic is the value \<open>Panic\<close> of the type \<open>outcome\<close>, distinct from
    a returned \<^verbatim>\<open>error\<close>.
  \<^item> The receiver \<^verbatim>\<open>*OLED\<close> is mutated in place: every method returns the updated
    record next to its \<^verbatim>\<open>error\<close> result (\<open>None\<close> is \<^verbatim>\<open>nil\<close>).
\<close>

type_synonym byte = "8 word"

subsection \<open>Go's int\<close>

definition MaxInt :: int where "MaxInt = 2 ^ 63 - 1"
definition MinInt :: int where "MinInt = - (2 ^ 63)"

definition wrap :: "int \<Rightarrow> int" where
  "wrap n = (n + 2 ^ 63) mod 2 ^ 64 - 2 ^ 63"

subsection \<open>The bus transport (package i2c, an external collaborator)\<close>

text \<open>
  The i2c package is not part of the repository. The driver only opens a connection
  and calls \<^verbatim>\<open>Write\<close> on it, so the connection is modelled as a recording transport:
  \<open>writes\<close> holds the payload of every \<^verbatim>\<open>Write\<close> call issued so far, in order, and
  \<open>faults\<close> decides, from the number of earlier calls, whether a call fails. The fault
  schedule is arbitrary, so the theorems hold for every behaviour of the transport.
\<close>

datatype error =
    OutOfBounds int int int int
  | BadValue byte
  | TransportError nat

record device =
  writes :: "byte list list"
  faults :: "nat \<Rightarrow> error option"

definition dev_Write :: "device \<Rightarrow> byte list \<Rightarrow> error option \<times> device" where
  "dev_Write d bs = (faults d (length (writes d)), d\<lparr>writes := writes d @ [bs]\<rparr>)"

type_synonym opener = "int \<Rightarrow> error + device"

definition i2c_Open :: "opener \<Rightarrow> int \<Rightarrow> error + device" where
  "i2c_Open opn a = opn a"

subsection \<open>Constants and the controller\<close>

definition ssd1306_LCDWIDTH :: int where "ssd1306_LCDWIDTH = 128"
definition ssd1306_LCDHEIGHT :: int where "ssd1306_LCDHEIGHT = 64"
definition addr :: int where "addr = 0x3C"
definition ssd1306_DISPLAY_ON :: byte where "ssd1306_DISPLAY_ON = 0xAF"
definition ssd1306_DISPLAY_OFF :: byte where "ssd1306_DISPLAY_OFF = 0xAE"

record OLED =
  dev :: device
  w :: int
  h :: int
  buf :: "byte list"

datatype 'a outcome = Return 'a | Panic string

definition initSeq :: "byte list" where
  "initSeq =
    [0xae,
     0x00 OR 0x00,
     0x10 OR 0x00,
     0xd5, 0x40,
     0xa8, word_of_int (ssd1306_LCDHEIGHT - 1),
     0xd3, 0x00,
     0x40 OR 0,
     0x8d, 0x14,
     0x20, 0x0,
     0xA0 OR 0x1,
     0xC8,
     0xda, 0x12,
     0x81, 0xcf,
     0x9d, 0xf1,
     0xdb, 0x40,
     0xa4, 0xa6,
     0x2e,
     0xaf]"

text \<open>\<^verbatim>\<open>make([]byte, n)\<close> followed by \<^verbatim>\<open>buf[0] = 0x40\<close>.\<close>

definition make_buf :: "int \<Rightarrow> byte list outcome" where
  "make_buf n =
     (if n < 0 then Panic ''makeslice: len out of range''
      else if n = 0 then Panic ''index out of range''
      else Return ((replicate (nat n) 0)[0 := 0x40]))"

definition Open :: "opener \<Rightarrow> (error + OLED) outcome" where
  "Open opn =
     (let w0 = ssd1306_LCDWIDTH; h0 = ssd1306_LCDHEIGHT in
      case i2c_Open opn addr of
        Inl err \<Rightarrow> Return (Inl err)
      | Inr d \<Rightarrow>
          (case dev_Write d initSeq of
             (Some err, d') \<Rightarrow> Return (Inl err)
           | (None, d') \<Rightarrow>
               (case make_buf (wrap (wrap (w0 * (h0 sdiv 8)) + 1)) of
                  Panic s \<Rightarrow> Panic s
                | Return b \<Rightarrow> Return (Inr \<lparr>dev = d', w = w0, h = h0, buf = b\<rparr>))))"

definition OpenWithI2c :: "device \<Rightarrow> int \<Rightarrow> (error + OLED) outcome" where
  "OpenWithI2c i2cDevice height =
     (let w0 = ssd1306_LCDWIDTH; h0 = height in
      case make_buf (wrap (wrap (w0 * (h0 sdiv 8)) + 1)) of
        Panic s \<Rightarrow> Panic s
      | Return b \<Rightarrow> Return (Inr \<lparr>dev = i2cDevice, w = w0, h = h0, buf = b\<rparr>))"

definition On :: "OLED \<Rightarrow> error option \<times> OLED" where
  "On ol = (case dev_Write (dev ol) [ssd1306_DISPLAY_ON] of (e, d') \<Rightarrow> (e, ol\<lparr>dev := d'\<rparr>))"

definition Off :: "OLED \<Rightarrow> error option \<times> OLED" where
  "Off ol = (case dev_Write (dev ol) [ssd1306_DISPLAY_OFF] of (e, d') \<Rightarrow> (e, ol\<lparr>dev := d'\<rparr>))"

subsection \<open>Draw and Clear\<close>

definition framing :: "byte list" where
  "framing = [0xa4, 0x40 OR 0, 0x21, 0, word_of_int ssd1306_LCDWIDTH, 0x22, 0, 7]"

definition Draw :: "OLED \<Rightarrow> error option \<times> OLED" where
  "Draw ol =
     (case dev_Write (dev ol) framing of
        (Some err, d') \<Rightarrow> (Some err, ol\<lparr>dev := d'\<rparr>)
      | (None, d') \<Rightarrow>
          (case dev_Write d' (buf ol) of (e, d'') \<Rightarrow> (e, ol\<lparr>dev := d''\<rparr>)))"

function Clear_loop :: "nat \<Rightarrow> byte list \<Rightarrow> byte list" where
  "Clear_loop i b = (if i < length b then Clear_loop (i + 1) (b[i := 0]) else b)"
  by pat_completeness auto
termination
  by (relation "measure (\<lambda>(i, b). length b - i)") auto

declare Clear_loop.simps [simp del]

definition Clear :: "OLED \<Rightarrow> error option \<times> OLED" where
  "Clear ol = Draw (ol\<lparr>buf := Clear_loop 1 (buf ol)\<rparr>)"

subsection \<open>SetPixel\<close>

definition SetPixel :: "OLED \<Rightarrow> int \<Rightarrow> int \<Rightarrow> byte \<Rightarrow> (error option \<times> OLED) outcome" where
  "SetPixel ol x y v =
     (if x \<ge> w ol \<or> y \<ge> h ol then Return (Some (OutOfBounds x y (w ol) (h ol)), ol)
      else if v > 1 then Return (Some (BadValue v), ol)
      else
        let i = wrap (wrap (1 + x) + wrap ((y sdiv 8) * w ol)) in
        if i < 0 \<or> i \<ge> int (length (buf ol)) then Panic ''index out of range''
        else if v = 0 then
          Return (None, ol\<lparr>buf := (buf ol)[nat i := (buf ol ! nat i) AND NOT (push_bit (nat (y AND 7)) 1)]\<rparr>)
        else
          Return (None, ol\<lparr>buf := (buf ol)[nat i := (buf ol ! nat i) OR push_bit (nat (y AND 7)) 1]\<rparr>))"

subsection \<open>SetImage\<close>

text \<open>
  \<^verbatim>\<open>image.Image\<close> is an interface of the standard library: \<open>Bounds\<close> is its rectangle
  and \<open>At\<close> gives, for a point, the four channels that \<^verbatim>\<open>Color.RGBA()\<close> returns.
  The loop counters \<^verbatim>\<open>i\<close> and \<^verbatim>\<open>j\<close> are incremented only below the guards \<^verbatim>\<open>i < endX\<close>
  and \<^verbatim>\<open>j < endY\<close>, whose right-hand sides are values of type \<^verbatim>\<open>int\<close>: these increments
  cannot overflow and are written \<open>i + 1\<close> and \<open>j + 1\<close>. The counters \<^verbatim>\<open>imgI\<close> and
  \<^verbatim>\<open>imgY\<close> have no guard and wrap around.
\<close>

record rectangle =
  MinX :: int
  MinY :: int
  MaxX :: int
  MaxY :: int

definition Dx :: "rectangle \<Rightarrow> int" where "Dx r = wrap (MaxX r - MinX r)"
definition Dy :: "rectangle \<Rightarrow> int" where "Dy r = wrap (MaxY r - MinY r)"

type_synonym rgba = "32 word \<times> 32 word \<times> 32 word \<times> 32 word"

record image =
  Bounds :: rectangle
  At :: "int \<Rightarrow> int \<Rightarrow> rgba"

definition threshold :: "rgba \<Rightarrow> byte" where
  "threshold c = (case c of (r, g, b, a) \<Rightarrow> if r + g + b > 0 then 0x1 else 0)"

function SetImage_col :: "OLED \<Rightarrow> image \<Rightarrow> int \<Rightarrow> int \<Rightarrow> int \<Rightarrow> int \<Rightarrow> int
    \<Rightarrow> (error option \<times> OLED) outcome" where
  "SetImage_col ol img i imgI endY j imgY =
     (if j < endY then
        (case SetPixel ol i j (threshold (At img imgI imgY)) of
           Panic s \<Rightarrow> Panic s
         | Return (Some err, ol') \<Rightarrow> Return (Some err, ol')
         | Return (None, ol') \<Rightarrow> SetImage_col ol' img i imgI endY (j + 1) (wrap (imgY + 1)))
      else Return (None, ol))"
  by pat_completeness auto
termination
  by (relation "measure (\<lambda>(ol, img, i, imgI, endY, j, imgY). nat (endY - j))") auto

declare SetImage_col.simps [simp del]

function SetImage_loop :: "OLED \<Rightarrow> image \<Rightarrow> int \<Rightarrow> int \<Rightarrow> int \<Rightarrow> int \<Rightarrow> int
    \<Rightarrow> (error option \<times> OLED) outcome" where
  "SetImage_loop ol img y endX endY i imgI =
     (if i < endX then
        (case SetImage_col ol img i imgI endY y 0 of
           Panic s \<Rightarrow> Panic s
         | Return (Some err, ol') \<Rightarrow> Return (Some err, ol')
         | Return (None, ol') \<Rightarrow> SetImage_loop ol' img y endX endY (i + 1) (wrap (imgI + 1)))
      else Return (None, ol))"
  by pat_completeness auto
termination
  by (relation "measure (\<lambda>(ol, img, y, endX, endY, i, imgI). nat (endX - i))") auto

declare SetImage_loop.simps [simp del]

definition SetImage :: "OLED \<Rightarrow> int \<Rightarrow> int \<Rightarrow> image \<Rightarrow> (error option \<times> OLED) outcome" where
  "SetImage ol x y img =
     (let imgW = Dx (Bounds img);
          imgH = Dy (Bounds img);
          endX = (if wrap (x + imgW) \<ge> w ol then w ol else wrap (x + imgW));
          endY = (if wrap (y + imgH) \<ge> h ol then h ol else wrap (y + imgH))
      in SetImage_loop ol img y endX endY x 0)"

subsection \<open>The scroll stubs\<close>

definition EnableScroll :: "OLED \<Rightarrow> int \<Rightarrow> int \<Rightarrow> (error option \<times> OLED) outcome" where
  "EnableScroll ol startY endY = Panic ''not implemented''"

definition DisableScroll :: "OLED \<Rightarrow> (error option \<times> OLED) outcome" where
  "DisableScroll ol = Panic ''not implemented''"

definition Width :: "OLED \<Rightarrow> int" where "Width ol = w ol"
definition Height :: "OLED \<Rightarrow> int" where "Height ol = h ol"

subsection \<open>Observations and concrete displays\<close>

text \<open>
  The geometry invariant of the data model: positive width and height, a height that is
  a multiple of 8, and a buffer of one marker byte plus one byte per column and page.
  The length of a slice is a value of type \<^verbatim>\<open>int\<close>, so it does not exceed \<open>MaxInt\<close>.
\<close>

definition valid :: "OLED \<Rightarrow> bool" where
  "valid ol \<longleftrightarrow>
     0 < w ol \<and> 0 < h ol \<and> h ol mod 8 = 0 \<and> int (length (buf ol)) = 1 + w ol * (h ol div 8)
     \<and> int (length (buf ol)) \<le> MaxInt"

text \<open>
  Reading a pixel back through the addressing formula of the data model: the byte at
  index \<open>1 + x + (y / 8) * width\<close>, bit \<open>y mod 8\<close>.
\<close>

definition pixel_index :: "OLED \<Rightarrow> int \<Rightarrow> int \<Rightarrow> nat" where
  "pixel_index ol x y = nat (1 + x + (y div 8) * w ol)"

definition pixel :: "OLED \<Rightarrow> int \<Rightarrow> int \<Rightarrow> bool" where
  "pixel ol x y = bit (buf ol ! pixel_index ol x y) (nat (y mod 8))"

text \<open>The thresholding of \<^verbatim>\<open>SetImage\<close>, as a truth value: is the channel sum positive?\<close>

definition lit :: "rgba \<Rightarrow> bool" where
  "lit c = (case c of (r, g, b, a) \<Rightarrow> r + g + b > 0)"

text \<open>
  The pixel of a source image at the offset \<open>(dx, dy)\<close> from the top-left corner of its
  bounds, and the conditions under which the arithmetic of \<^verbatim>\<open>SetImage\<close> is exact: the
  bounds are values of type \<^verbatim>\<open>int\<close> that start at the origin, and neither \<open>x\<close> plus the
  width nor \<open>y\<close> plus the height exceeds \<open>MaxInt\<close>.
\<close>

definition source_pixel :: "image \<Rightarrow> int \<Rightarrow> int \<Rightarrow> rgba" where
  "source_pixel img dx dy = At img (MinX (Bounds img) + dx) (MinY (Bounds img) + dy)"

definition fits :: "image \<Rightarrow> int \<Rightarrow> int \<Rightarrow> bool" where
  "fits img x y \<longleftrightarrow>
     MinX (Bounds img) = 0 \<and> MinY (Bounds img) = 0
     \<and> MinInt \<le> MaxX (Bounds img) \<and> MinInt \<le> MaxY (Bounds img)
     \<and> x + MaxX (Bounds img) \<le> MaxInt \<and> y + MaxY (Bounds img) \<le> MaxInt"

text \<open>
  Two transports with no traffic yet: \<open>quiet\<close> never fails, \<open>flaky\<close> fails its first
  write. \<open>panel d\<close> is the 128x64 controller with an all-off buffer on connection \<open>d\<close>.
\<close>

definition quiet :: device where
  "quiet = \<lparr>writes = [], faults = (\<lambda>n. None)\<rparr>"

definition flaky :: device where
  "flaky = \<lparr>writes = [], faults = (\<lambda>n. if n = 0 then Some (TransportError 5) else None)\<rparr>"

definition quiet_opener :: opener where
  "quiet_opener a = Inr quiet"

definition panel :: "device \<Rightarrow> OLED" where
  "panel d = \<lparr>dev = d, w = 128, h = 64, buf = 0x40 # replicate 1024 0\<rparr>"

definition white :: image where
  "white = \<lparr>Bounds = \<lparr>MinX = 0, MinY = 0, MaxX = 10, MaxY = 10\<rparr>,
            At = (\<lambda>x y. (0xffff, 0xffff, 0xffff, 0xffff))\<rparr>"

text \<open>
  \<open>short d\<close> is the 128x12 controller that \<^verbatim>\<open>OpenWithI2c\<close> returns for the height 12.
  \<open>corner\<close> is a sub-image of one white pixel whose bounds start at (5, 5), black outside
  its bounds; \<open>wide\<close> is a white image one pixel high and \<open>MaxInt\<close> pixels wide.
\<close>

definition short :: "device \<Rightarrow> OLED" where
  "short d = \<lparr>dev = d, w = 128, h = 12, buf = 0x40 # replicate 128 0\<rparr>"

definition corner :: image where
  "corner = \<lparr>Bounds = \<lparr>MinX = 5, MinY = 5, MaxX = 6, MaxY = 6\<rparr>,
             At = (\<lambda>x y. if x = 5 \<and> y = 5 then (0xffff, 0xffff, 0xffff, 0xffff)
                          else (0, 0, 0, 0))\<rparr>"

definition wide :: image where
  "wide = \<lparr>Bounds = \<lparr>MinX = 0, MinY = 0, MaxX = 2 ^ 63 - 1, MaxY = 1\<rparr>,
           At = (\<lambda>x y. (0xffff, 0xffff, 0xffff, 0xffff))\<rparr>"

section \<open>Helper facts\<close>

lemma replicate_marker: "0 < n \<Longrightarrow> (replicate n x)[0 := y] = y # replicate (n - 1) x"
  by (cases n) simp_all

lemma make_buf_eq:
  "make_buf n =
     (if n < 0 then Panic ''makeslice: len out of range''
      else if n = 0 then Panic ''index out of range''
      else Return (0x40 # replicate (nat n - 1) 0))"
  by (simp add: make_buf_def replicate_marker)

lemma wrap_id: "MinInt \<le> n \<Longrightarrow> n \<le> MaxInt \<Longrightarrow> wrap n = n"
proof -
  assume a: "MinInt \<le> n" "n \<le> MaxInt"
  then have "0 \<le> n + 2 ^ 63" "n + 2 ^ 63 < 2 ^ 64" by (simp_all add: MinInt_def MaxInt_def)
  then have "(n + 2 ^ 63) mod 2 ^ 64 = n + 2 ^ 63" by (rule mod_pos_pos_trivial)
  then show ?thesis by (simp add: wrap_def)
qed

lemma wrap_nonneg: "0 \<le> n \<Longrightarrow> n \<le> MaxInt \<Longrightarrow> wrap n = n"
  by (rule wrap_id) (simp_all add: MinInt_def)

lemma sdiv8_div: "0 \<le> (k::int) \<Longrightarrow> k sdiv 8 = k div 8"
  by (simp add: signed_divide_int_def sgn_if)

lemma and7_mod8: "(y::int) AND 7 = y mod 8"
proof -
  have "take_bit 3 y = y mod 8" by (simp add: take_bit_eq_mod)
  moreover have "take_bit 3 y = y AND mask 3" by (rule take_bit_eq_mask)
  moreover have "(mask 3::int) = 7" by (simp add: mask_eq_exp_minus_1)
  ultimately show ?thesis by simp
qed

lemma bit_pow2_byte: "bit ((2::byte) ^ n) m = (m = n \<and> n < 8)"
  by (auto simp add: bit_exp_iff)

lemma bit_set: "bit ((b::byte) OR push_bit n 1) m = (bit b m \<or> (m = n \<and> n < 8))"
  by (simp add: bit_or_iff bit_pow2_byte)

lemma bit_clear: "bit ((b::byte) AND NOT (push_bit n 1)) m = (bit b m \<and> m \<noteq> n)"
  by (auto simp add: bit_and_iff bit_not_iff bit_pow2_byte dest: bit_imp_le_length)

lemma index_in_range:
  assumes "valid ol" "0 \<le> x" "x < w ol" "0 \<le> y" "y < h ol"
  shows "0 < 1 + x + (y div 8) * w ol" "1 + x + (y div 8) * w ol < int (length (buf ol))"
    "0 \<le> (y div 8) * w ol"
proof -
  from assms have w: "0 < w ol" and len: "int (length (buf ol)) = 1 + w ol * (h ol div 8)"
    and h8: "h ol mod 8 = 0" by (simp_all add: valid_def)
  from assms(4) have "0 \<le> y div 8" by (simp add: pos_imp_zdiv_nonneg_iff)
  then show nn: "0 \<le> (y div 8) * w ol" using w by simp
  then show "0 < 1 + x + (y div 8) * w ol" using assms(2) by linarith
  from assms(5) h8 have "y div 8 + 1 \<le> h ol div 8" by presburger
  then have "(y div 8 + 1) * w ol \<le> (h ol div 8) * w ol" using w
    by (intro mult_right_mono) simp_all
  then have "(y div 8) * w ol + w ol \<le> w ol * (h ol div 8)" by (simp add: algebra_simps)
  then show "1 + x + (y div 8) * w ol < int (length (buf ol))" using assms(3) len by linarith
qed

text \<open>
  For an in-bounds pixel of a display that satisfies the geometry invariant no step of the
  index computation overflows.
\<close>

lemma index_exact:
  assumes "valid ol" "0 \<le> x" "x < w ol" "0 \<le> y" "y < h ol"
  shows "wrap (wrap (1 + x) + wrap ((y sdiv 8) * w ol)) = 1 + x + (y div 8) * w ol"
proof -
  note r = index_in_range [OF assms]
  from assms(1) have m: "int (length (buf ol)) \<le> MaxInt" by (simp add: valid_def)
  have sd: "y sdiv 8 = y div 8" using assms(4) by (rule sdiv8_div)
  have a: "wrap (1 + x) = 1 + x" using assms(2) r m by (intro wrap_nonneg) linarith+
  have b: "wrap ((y div 8) * w ol) = (y div 8) * w ol"
    using assms(2) r m by (intro wrap_nonneg) linarith+
  have c: "wrap (1 + x + (y div 8) * w ol) = 1 + x + (y div 8) * w ol"
    using r m by (intro wrap_nonneg) linarith+
  show ?thesis by (simp add: sd a b c)
qed

text \<open>The byte that \<^verbatim>\<open>SetPixel\<close> stores for an in-bounds pixel.\<close>

lemma SetPixel_ok:
  assumes "valid ol" "0 \<le> x" "x < w ol" "0 \<le> y" "y < h ol" "v \<le> 1"
  shows "SetPixel ol x y v =
           Return (None, ol\<lparr>buf := (buf ol)[pixel_index ol x y :=
             (if v = 0 then (buf ol ! pixel_index ol x y) AND NOT (push_bit (nat (y mod 8)) 1)
              else (buf ol ! pixel_index ol x y) OR push_bit (nat (y mod 8)) 1)]\<rparr>)"
proof -
  let ?i = "1 + x + (y div 8) * w ol"
  have r: "0 < ?i" "?i < int (length (buf ol))"
    using index_in_range(1,2) [OF assms(1-5)] by simp_all
  have ix: "wrap (wrap (1 + x) + wrap ((y sdiv 8) * w ol)) = ?i"
    using assms(1-5) by (rule index_exact)
  have v1: "\<not> v > 1" using assms(6) by simp
  have nb: "\<not> (w ol \<le> x \<or> h ol \<le> y)" using assms by simp
  show ?thesis
    unfolding SetPixel_def Let_def ix and7_mod8 pixel_index_def
    using nb r v1 by (simp del: push_bit_of_1)
qed

lemma byte_le_1: "(v::byte) \<le> 1 \<Longrightarrow> v = 0 \<or> v = 1"
proof -
  assume "v \<le> 1"
  then have "unat v \<le> 1" by (simp add: word_le_nat_alt)
  then have "unat v = unat (0::byte) \<or> unat v = unat (1::byte)" by auto
  then show ?thesis by (simp only: word_unat_eq_iff)
qed

lemma valid_buf_update: "valid ol \<Longrightarrow> length b' = length (buf ol) \<Longrightarrow> valid (ol\<lparr>buf := b'\<rparr>)"
  by (simp add: valid_def)

lemma pixel_index_buf: "pixel_index (ol\<lparr>buf := b\<rparr>) x y = pixel_index ol x y"
  by (simp add: pixel_index_def)

lemma pixel_address_inj:
  assumes "0 < (wd::int)" "0 \<le> px" "px < wd" "0 \<le> x" "x < wd"
    and "1 + px + (py div 8) * wd = 1 + x + (y div 8) * wd" "py mod 8 = y mod 8"
  shows "px = x \<and> py = y"
proof -
  from assms(6) have e: "px + (py div 8) * wd = x + (y div 8) * wd" by simp
  have "(px + (py div 8) * wd) mod wd = px" using assms(2,3) by simp
  moreover have "(x + (y div 8) * wd) mod wd = x" using assms(4,5) by simp
  ultimately have px: "px = x" using e by simp
  with e assms(1) have "py div 8 = y div 8" by simp
  with assms(7) have "py = y" by (metis mult_div_mod_eq)
  with px show ?thesis by simp
qed

lemma SetPixel_pixels:
  assumes "valid ol" "0 \<le> x" "x < w ol" "0 \<le> y" "y < h ol" "v \<le> 1"
  shows "\<exists>b'. SetPixel ol x y v = Return (None, ol\<lparr>buf := b'\<rparr>)
           \<and> length b' = length (buf ol) \<and> b' ! 0 = buf ol ! 0
           \<and> (\<forall>px py. 0 \<le> px \<and> px < w ol \<and> 0 \<le> py \<and> py < h ol \<longrightarrow>
                 pixel (ol\<lparr>buf := b'\<rparr>) px py =
                   (if px = x \<and> py = y then v = 1 else pixel ol px py))"
proof -
  define i where "i = pixel_index ol x y"
  define b' where "b' = (buf ol)[i :=
             (if v = 0 then (buf ol ! i) AND NOT (push_bit (nat (y mod 8)) 1)
              else (buf ol ! i) OR push_bit (nat (y mod 8)) 1)]"
  have v01: "v = 0 \<or> v = 1" using assms(6) by (rule byte_le_1)
  have run: "SetPixel ol x y v = Return (None, ol\<lparr>buf := b'\<rparr>)"
    unfolding b'_def i_def using assms by (rule SetPixel_ok)
  have wpos: "0 < w ol" using assms(1) by (simp add: valid_def)
  have ni: "i < length (buf ol)" and ipos: "0 < i"
    using index_in_range [OF assms(1-5)] by (simp_all add: i_def pixel_index_def)
  have m8: "nat (y mod 8) < 8" by simp
  have len: "length b' = length (buf ol)" by (simp add: b'_def)
  have marker: "b' ! 0 = buf ol ! 0" using ipos by (simp add: b'_def)
  have px: "pixel (ol\<lparr>buf := b'\<rparr>) px py = (if px = x \<and> py = y then v = 1 else pixel ol px py)"
    if "0 \<le> px \<and> px < w ol \<and> 0 \<le> py \<and> py < h ol" for px py
  proof (cases "pixel_index ol px py = i")
    case True
    have rng: "0 < 1 + px + (py div 8) * w ol"
      using index_in_range(1) [OF assms(1), of px py] that by simp
    from True rng index_in_range(1) [OF assms(1-5)]
    have eq: "1 + px + (py div 8) * w ol = 1 + x + (y div 8) * w ol"
      by (simp add: i_def pixel_index_def)
    show ?thesis
    proof (cases "py mod 8 = y mod 8")
      case same: True
      with eq have "px = x \<and> py = y"
        using pixel_address_inj [OF wpos _ _ assms(2,3) eq same] that by simp
      then show ?thesis using v01 ni m8 True
        by (auto simp add: pixel_def b'_def bit_set bit_clear pixel_index_buf simp del: push_bit_of_1)
    next
      case False
      then have ne: "nat (py mod 8) \<noteq> nat (y mod 8)" by (simp add: nat_eq_iff)
      from False have "\<not> (px = x \<and> py = y)" by auto
      then show ?thesis using v01 ni m8 True ne
        by (auto simp add: pixel_def b'_def bit_set bit_clear pixel_index_buf simp del: push_bit_of_1)
    qed
  next
    case False
    then have "\<not> (px = x \<and> py = y)" by (auto simp add: i_def pixel_index_def)
    then show ?thesis using False by (auto simp add: pixel_def b'_def pixel_index_buf)
  qed
  show ?thesis using run len marker px by blast
qed

lemma valid_panel: "valid (panel d)"
  by (simp add: valid_def panel_def MaxInt_def)

lemma SetPixel_rejects:
  "(\<exists>e. SetPixel ol x y v = Return (Some e, ol')) \<longleftrightarrow> (x \<ge> w ol \<or> y \<ge> h ol \<or> v > 1) \<and> ol' = ol"
  by (auto simp add: SetPixel_def Let_def)

lemma Clear_loop_marker: "0 < i \<Longrightarrow> length (Clear_loop i b) = length b \<and> Clear_loop i b ! 0 = b ! 0"
proof (induction i b rule: Clear_loop.induct)
  case (1 i b)
  show ?case
  proof (cases "i < length b")
    case True
    with 1 show ?thesis by (subst (1 2) Clear_loop.simps) simp
  next
    case False
    then show ?thesis by (subst (1 2) Clear_loop.simps) simp
  qed
qed

section \<open>Setting a pixel\<close>

text \<open>
  Claim C1, as amended. On a display that satisfies the geometry invariant (positive width
  and height, a height that is a multiple of 8, a buffer of \<open>1 + width * (height / 8)\<close>
  bytes), \<^verbatim>\<open>SetPixel\<close> with \<open>0 \<le> x < width\<close>, \<open>0 \<le> y < height\<close> and a value of 0 or 1
  returns nil and changes nothing but the buffer; the new buffer has the same length, and
  each of its bits equals the old one except bit \<open>y mod 8\<close> of the byte at index
  \<open>1 + x + (y / 8) * width\<close>, which is set exactly when the value is 1. Reading the pixel
  back yields the value.
\<close>

theorem SetPixel_in_bounds:
  assumes "valid ol" "0 \<le> x" "x < w ol" "0 \<le> y" "y < h ol" "v = 0 \<or> v = 1"
  shows "\<exists>b'. SetPixel ol x y v = Return (None, ol\<lparr>buf := b'\<rparr>)
           \<and> length b' = length (buf ol)
           \<and> pixel_index ol x y < length (buf ol)
           \<and> (\<forall>k n. k < length (buf ol) \<longrightarrow>
                 bit (b' ! k) n =
                   (if k = pixel_index ol x y \<and> n = nat (y mod 8) then v = 1
                    else bit (buf ol ! k) n))
           \<and> pixel (ol\<lparr>buf := b'\<rparr>) x y = (v = 1)"
proof -
  define i where "i = pixel_index ol x y"
  define b' where "b' = (buf ol)[i :=
             (if v = 0 then (buf ol ! i) AND NOT (push_bit (nat (y mod 8)) 1)
              else (buf ol ! i) OR push_bit (nat (y mod 8)) 1)]"
  have v1: "v \<le> 1" using assms(6) by auto
  have run: "SetPixel ol x y v = Return (None, ol\<lparr>buf := b'\<rparr>)"
    unfolding b'_def i_def using assms(1-5) v1 by (rule SetPixel_ok)
  have ni: "i < length (buf ol)"
    using index_in_range [OF assms(1-5)] by (simp add: i_def pixel_index_def)
  have m8: "nat (y mod 8) < 8" by simp
  have len: "length b' = length (buf ol)" by (simp add: b'_def)
  have bits: "bit (b' ! k) n =
      (if k = i \<and> n = nat (y mod 8) then v = 1 else bit (buf ol ! k) n)"
    if "k < length (buf ol)" for k n
  proof (cases "k = i")
    case True
    show ?thesis using assms(6) ni m8 True
      by (auto simp add: b'_def bit_set bit_clear simp del: push_bit_of_1)
  next
    case False
    then show ?thesis by (simp add: b'_def)
  qed
  have readback: "pixel (ol\<lparr>buf := b'\<rparr>) x y = (v = 1)"
    using bits [OF ni, of "nat (y mod 8)"] by (simp add: pixel_def pixel_index_def i_def)
  show ?thesis using run len ni bits readback unfolding i_def by blast
qed

text \<open>The hypotheses of C1 hold for pixel (0, 0) of the 128x64 display.\<close>

theorem SetPixel_in_bounds_witness:
  "valid (panel quiet) \<and> (0::int) \<le> 0 \<and> 0 < w (panel quiet) \<and> 0 < h (panel quiet)
   \<and> ((1::byte) = 0 \<or> (1::byte) = 1)
   \<and> (\<exists>b'. SetPixel (panel quiet) 0 0 1 = Return (None, (panel quiet)\<lparr>buf := b'\<rparr>)
         \<and> pixel ((panel quiet)\<lparr>buf := b'\<rparr>) 0 0)"
proof -
  have v: "valid (panel quiet)" by (rule valid_panel)
  have g: "0 < w (panel quiet)" "0 < h (panel quiet)" by (simp_all add: panel_def)
  from SetPixel_in_bounds [OF v order_refl g(1) order_refl g(2), of 1]
  show ?thesis using v g by auto
qed

text \<open>
  The claim as stated fails without the geometry invariant: \<^verbatim>\<open>OpenWithI2c\<close> with the height
  12 returns a 128x12 display with a buffer of 129 bytes, and on it the in-bounds call
  \<^verbatim>\<open>SetPixel(0, 8, 1)\<close> computes the index 129 and panics.
\<close>

theorem SetPixel_panics_on_short_display:
  "OpenWithI2c quiet 12 = Return (Inr (short quiet))
   \<and> (0::int) \<le> 0 \<and> 0 < w (short quiet) \<and> (0::int) \<le> 8 \<and> 8 < h (short quiet)
   \<and> SetPixel (short quiet) 0 8 1 = Panic ''index out of range''"
  by (simp add: OpenWithI2c_def make_buf_eq ssd1306_LCDWIDTH_def Let_def wrap_def
      signed_divide_int_def short_def SetPixel_def)

text \<open>
  Claim C2, at the input where the code departs from it. \<^verbatim>\<open>SetPixel\<close> compares the
  coordinates with the width and the height only. On the all-off 128x64 display,
  \<^verbatim>\<open>SetPixel(-1, 0, 1)\<close> returns nil and writes bit 0 of the marker byte,
  \<^verbatim>\<open>SetPixel(0, -1, 1)\<close> returns nil and sets bit 7 of the byte at index 1, and
  \<^verbatim>\<open>SetPixel(-2, 0, 1)\<close> panics on the index -1: none of them returns an error.
\<close>

theorem SetPixel_negative_accepted:
  "SetPixel (panel quiet) (-1) 0 1 = Return (None, (panel quiet)\<lparr>buf := 0x41 # replicate 1024 0\<rparr>)
   \<and> SetPixel (panel quiet) 0 (-1) 1 =
       Return (None, (panel quiet)\<lparr>buf := 0x40 # 0x80 # replicate 1023 0\<rparr>)
   \<and> SetPixel (panel quiet) (-2) 0 1 = Panic ''index out of range''"
  by (simp add: SetPixel_def panel_def Let_def signed_divide_int_def replicate_marker wrap_def)

text \<open>
  Claim C5, at the input where the code departs from it. On the all-off 128x64 display
  the marker byte is 0x40; \<^verbatim>\<open>SetPixel(-1, 6, 0)\<close> returns nil and clears it to 0x00,
  and the next \<^verbatim>\<open>Draw\<close> transmits the buffer with that marker.
\<close>

theorem marker_overwritten:
  "buf (panel quiet) ! 0 = 0x40
   \<and> SetPixel (panel quiet) (-1) 6 0 = Return (None, (panel quiet)\<lparr>buf := 0x00 # replicate 1024 0\<rparr>)
   \<and> snd (Draw ((panel quiet)\<lparr>buf := 0x00 # replicate 1024 0\<rparr>))
       = (panel quiet)\<lparr>buf := 0x00 # replicate 1024 0,
                         dev := quiet\<lparr>writes := [framing, 0x00 # replicate 1024 0]\<rparr>\<rparr>"
  by (simp add: SetPixel_def panel_def Let_def Draw_def dev_Write_def quiet_def wrap_def)

section \<open>Opening the display\<close>



text \<open>
  Claim C3, as amended. \<^verbatim>\<open>Open\<close> returns the opener's error when the connection cannot be
  opened. Otherwise it issues exactly one write on the connection, the initialization
  sequence: when that write fails it returns the transport's error and no controller;
  when it succeeds it returns the 128x64 controller, whose connection has received the
  initialization sequence right after whatever it had received before. The sequence is
  28 bytes long.
\<close>

theorem Open_writes_initSeq:
  "Open opn =
     (case opn addr of
        Inl e \<Rightarrow> Return (Inl e)
      | Inr d \<Rightarrow>
          (case faults d (length (writes d)) of
             Some e \<Rightarrow> Return (Inl e)
           | None \<Rightarrow>
               Return (Inr \<lparr>dev = d\<lparr>writes := writes d @ [initSeq]\<rparr>, w = 128, h = 64,
                             buf = 0x40 # replicate 1024 0\<rparr>)))
   \<and> length initSeq = 28"
  by (simp add: Open_def i2c_Open_def dev_Write_def make_buf_eq ssd1306_LCDWIDTH_def
      ssd1306_LCDHEIGHT_def initSeq_def Let_def wrap_def split: sum.splits option.splits)

text \<open>
  The claim as stated fails: on a connection that never fails, the only write of
  \<^verbatim>\<open>Open\<close> is the initialization sequence, and it is not 26 bytes long.
\<close>

theorem Open_initSeq_not_26:
  "Open quiet_opener = Return (Inr (panel (quiet\<lparr>writes := [initSeq]\<rparr>)))
   \<and> length initSeq \<noteq> 26"
  by (simp add: Open_def i2c_Open_def dev_Write_def make_buf_eq ssd1306_LCDWIDTH_def
      ssd1306_LCDHEIGHT_def initSeq_def Let_def wrap_def quiet_opener_def quiet_def panel_def)







section \<open>Copying an image\<close>

lemma threshold_le_1: "threshold c \<le> 1"
  by (cases c) (simp add: threshold_def)

lemma threshold_lit: "(threshold c = 1) = lit c"
  by (cases c) (simp add: threshold_def lit_def)

lemma SetImage_col_pixels:
  assumes "valid ol" "0 \<le> i" "i < w ol" "0 \<le> j" "endY \<le> h ol"
    and "0 \<le> imgY" "imgY + (endY - j) \<le> MaxInt"
  shows "\<exists>b'. SetImage_col ol img i imgI endY j imgY = Return (None, ol\<lparr>buf := b'\<rparr>)
           \<and> length b' = length (buf ol) \<and> b' ! 0 = buf ol ! 0
           \<and> (\<forall>px py. 0 \<le> px \<and> px < w ol \<and> 0 \<le> py \<and> py < h ol \<longrightarrow>
                 pixel (ol\<lparr>buf := b'\<rparr>) px py =
                   (if px = i \<and> j \<le> py \<and> py < endY then lit (At img imgI (imgY + (py - j)))
                    else pixel ol px py))"
  using assms
proof (induction "nat (endY - j)" arbitrary: ol j imgY)
  case 0
  then have "\<not> j < endY" by simp
  then have "SetImage_col ol img i imgI endY j imgY = Return (None, ol\<lparr>buf := buf ol\<rparr>)"
    by (subst SetImage_col.simps) simp
  then show ?case using \<open>\<not> j < endY\<close> by (intro exI [of _ "buf ol"]) auto
next
  case (Suc n)
  then have lt: "j < endY" by linarith
  then have jh: "j < h ol" using Suc.prems by simp
  have wy: "wrap (imgY + 1) = imgY + 1" using lt Suc.prems(6,7) by (intro wrap_nonneg) linarith+
  let ?v = "threshold (At img imgI imgY)"
  from SetPixel_pixels [OF Suc.prems(1,2,3,4) jh threshold_le_1 [of "At img imgI imgY"]]
  obtain b1 where
    s1: "SetPixel ol i j ?v = Return (None, ol\<lparr>buf := b1\<rparr>)"
    and l1: "length b1 = length (buf ol)" and m1: "b1 ! 0 = buf ol ! 0"
    and p1: "\<And>px py. 0 \<le> px \<and> px < w ol \<and> 0 \<le> py \<and> py < h ol \<Longrightarrow>
                 pixel (ol\<lparr>buf := b1\<rparr>) px py =
                   (if px = i \<and> py = j then ?v = 1 else pixel ol px py)"
    by blast
  let ?ol1 = "ol\<lparr>buf := b1\<rparr>"
  have v1: "valid ?ol1" using Suc.prems(1) l1 by (rule valid_buf_update)
  have n: "n = nat (endY - (j + 1))" using Suc.hyps(2) by linarith
  have "\<exists>b'. SetImage_col ?ol1 img i imgI endY (j + 1) (imgY + 1) = Return (None, ?ol1\<lparr>buf := b'\<rparr>)
           \<and> length b' = length (buf ?ol1) \<and> b' ! 0 = buf ?ol1 ! 0
           \<and> (\<forall>px py. 0 \<le> px \<and> px < w ?ol1 \<and> 0 \<le> py \<and> py < h ?ol1 \<longrightarrow>
                 pixel (?ol1\<lparr>buf := b'\<rparr>) px py =
                   (if px = i \<and> j + 1 \<le> py \<and> py < endY
                    then lit (At img imgI (imgY + 1 + (py - (j + 1))))
                    else pixel ?ol1 px py))"
    using Suc.prems by (intro Suc.hyps(1) [OF n v1]) simp_all
  then obtain b2 where
    s2: "SetImage_col ?ol1 img i imgI endY (j + 1) (imgY + 1) = Return (None, ol\<lparr>buf := b2\<rparr>)"
    and l2: "length b2 = length b1" and m2: "b2 ! 0 = b1 ! 0"
    and p2: "\<And>px py. 0 \<le> px \<and> px < w ol \<and> 0 \<le> py \<and> py < h ol \<Longrightarrow>
                 pixel (ol\<lparr>buf := b2\<rparr>) px py =
                   (if px = i \<and> j + 1 \<le> py \<and> py < endY
                    then lit (At img imgI (imgY + 1 + (py - (j + 1))))
                    else pixel ?ol1 px py)"
    by auto
  have run: "SetImage_col ol img i imgI endY j imgY = Return (None, ol\<lparr>buf := b2\<rparr>)"
    using lt s1 s2 by (subst SetImage_col.simps) (simp add: wy)
  have px: "pixel (ol\<lparr>buf := b2\<rparr>) px py =
                   (if px = i \<and> j \<le> py \<and> py < endY then lit (At img imgI (imgY + (py - j)))
                    else pixel ol px py)"
    if b: "0 \<le> px \<and> px < w ol \<and> 0 \<le> py \<and> py < h ol" for px py
  proof (cases "px = i \<and> py = j")
    case True
    then show ?thesis using p2 [OF b] p1 [OF b] lt by (simp add: threshold_lit)
  next
    case False
    have "(imgY + 1 + (py - (j + 1))) = imgY + (py - j)" by simp
    then show ?thesis using False p2 [OF b] p1 [OF b] by auto
  qed
  show ?case using run l1 l2 m1 m2 px by (intro exI [of _ b2]) simp
qed

lemma SetImage_col_empty: "endY \<le> j \<Longrightarrow> SetImage_col ol img i imgI endY j imgY = Return (None, ol)"
  by (subst SetImage_col.simps) simp

lemma SetImage_loop_empty_cols:
  "endX \<le> i \<Longrightarrow> SetImage_loop ol img y endX endY i imgI = Return (None, ol)"
  by (subst SetImage_loop.simps) simp

lemma SetImage_loop_empty_rows:
  "endY \<le> y \<Longrightarrow> SetImage_loop ol img y endX endY i imgI = Return (None, ol)"
proof (induction "nat (endX - i)" arbitrary: i imgI)
  case 0
  then show ?case by (subst SetImage_loop.simps) simp
next
  case (Suc n)
  then have "n = nat (endX - (i + 1))" by linarith
  from Suc.hyps(1) [OF this Suc.prems, of "wrap (imgI + 1)"]
  have "SetImage_loop ol img y endX endY (i + 1) (wrap (imgI + 1)) = Return (None, ol)" .
  then show ?case using Suc.prems
    by (subst SetImage_loop.simps) (simp add: SetImage_col_empty)
qed

lemma SetImage_loop_pixels:
  assumes "valid ol" "0 \<le> i" "endX \<le> w ol" "0 \<le> y" "endY \<le> h ol"
    and "endY \<le> MaxInt" "0 \<le> imgI" "imgI + (endX - i) \<le> MaxInt"
  shows "\<exists>b'. SetImage_loop ol img y endX endY i imgI = Return (None, ol\<lparr>buf := b'\<rparr>)
           \<and> length b' = length (buf ol) \<and> b' ! 0 = buf ol ! 0
           \<and> (\<forall>px py. 0 \<le> px \<and> px < w ol \<and> 0 \<le> py \<and> py < h ol \<longrightarrow>
                 pixel (ol\<lparr>buf := b'\<rparr>) px py =
                   (if i \<le> px \<and> px < endX \<and> y \<le> py \<and> py < endY
                    then lit (At img (imgI + (px - i)) (py - y))
                    else pixel ol px py))"
  using assms
proof (induction "nat (endX - i)" arbitrary: ol i imgI)
  case 0
  then have ge: "endX \<le> i" by simp
  then have "SetImage_loop ol img y endX endY i imgI = Return (None, ol\<lparr>buf := buf ol\<rparr>)"
    by (simp add: SetImage_loop_empty_cols)
  then show ?case using ge by (intro exI [of _ "buf ol"]) auto
next
  case (Suc n)
  then have lt: "i < endX" by linarith
  then have iw: "i < w ol" using Suc.prems by simp
  have wi: "wrap (imgI + 1) = imgI + 1" using lt Suc.prems(7,8) by (intro wrap_nonneg) linarith+
  have rows: "0 + (endY - y) \<le> MaxInt" using Suc.prems(4,6) by linarith
  from SetImage_col_pixels [OF Suc.prems(1,2) iw Suc.prems(4,5) order_refl rows, of img imgI]
  obtain b1 where
    s1: "SetImage_col ol img i imgI endY y 0 = Return (None, ol\<lparr>buf := b1\<rparr>)"
    and l1: "length b1 = length (buf ol)" and m1: "b1 ! 0 = buf ol ! 0"
    and p1: "\<And>px py. 0 \<le> px \<and> px < w ol \<and> 0 \<le> py \<and> py < h ol \<Longrightarrow>
                 pixel (ol\<lparr>buf := b1\<rparr>) px py =
                   (if px = i \<and> y \<le> py \<and> py < endY then lit (At img imgI (0 + (py - y)))
                    else pixel ol px py)"
    by blast
  let ?ol1 = "ol\<lparr>buf := b1\<rparr>"
  have v1: "valid ?ol1" using Suc.prems(1) l1 by (rule valid_buf_update)
  have n: "n = nat (endX - (i + 1))" using Suc.hyps(2) by linarith
  have "\<exists>b'. SetImage_loop ?ol1 img y endX endY (i + 1) (imgI + 1) = Return (None, ?ol1\<lparr>buf := b'\<rparr>)
           \<and> length b' = length (buf ?ol1) \<and> b' ! 0 = buf ?ol1 ! 0
           \<and> (\<forall>px py. 0 \<le> px \<and> px < w ?ol1 \<and> 0 \<le> py \<and> py < h ?ol1 \<longrightarrow>
                 pixel (?ol1\<lparr>buf := b'\<rparr>) px py =
                   (if i + 1 \<le> px \<and> px < endX \<and> y \<le> py \<and> py < endY
                    then lit (At img (imgI + 1 + (px - (i + 1))) (py - y))
                    else pixel ?ol1 px py))"
    using Suc.prems by (intro Suc.hyps(1) [OF n v1]) simp_all
  then obtain b2 where
    s2: "SetImage_loop ?ol1 img y endX endY (i + 1) (imgI + 1) = Return (None, ol\<lparr>buf := b2\<rparr>)"
    and l2: "length b2 = length b1" and m2: "b2 ! 0 = b1 ! 0"
    and p2: "\<And>px py. 0 \<le> px \<and> px < w ol \<and> 0 \<le> py \<and> py < h ol \<Longrightarrow>
                 pixel (ol\<lparr>buf := b2\<rparr>) px py =
                   (if i + 1 \<le> px \<and> px < endX \<and> y \<le> py \<and> py < endY
                    then lit (At img (imgI + 1 + (px - (i + 1))) (py - y))
                    else pixel ?ol1 px py)"
    by auto
  have run: "SetImage_loop ol img y endX endY i imgI = Return (None, ol\<lparr>buf := b2\<rparr>)"
    using lt s1 s2 by (subst SetImage_loop.simps) (simp add: wi)
  have px: "pixel (ol\<lparr>buf := b2\<rparr>) px py =
                   (if i \<le> px \<and> px < endX \<and> y \<le> py \<and> py < endY
                    then lit (At img (imgI + (px - i)) (py - y))
                    else pixel ol px py)"
    if b: "0 \<le> px \<and> px < w ol \<and> 0 \<le> py \<and> py < h ol" for px py
  proof (cases "px = i")
    case True
    then show ?thesis using p2 [OF b] p1 [OF b] lt by simp
  next
    case False
    have "imgI + 1 + (px - (i + 1)) = imgI + (px - i)" by simp
    then show ?thesis using False p2 [OF b] p1 [OF b] by auto
  qed
  show ?case using run l1 l2 m1 m2 px by (intro exI [of _ b2]) simp
qed

text \<open>
  Claim C8, as amended. On a display that satisfies the geometry invariant, for a source
  whose bounds start at the origin and for which neither \<open>x\<close> plus its width nor \<open>y\<close>
  plus its height exceeds \<open>MaxInt\<close>, \<^verbatim>\<open>SetImage\<close> with \<open>x \<ge> 0\<close> and \<open>y \<ge> 0\<close> returns nil,
  with no error and no panic, and changes nothing but the buffer. The buffer keeps its
  length and its marker byte. A pixel of the display inside the rectangle of the source's
  size placed at \<open>(x, y)\<close> is on exactly when the channel sum \<open>r + g + b\<close> of the source
  pixel at the offset \<open>(px - x, py - y)\<close> is positive; every other pixel of the display
  is unchanged. When \<open>x \<ge> width\<close> or \<open>y \<ge> height\<close> the buffer is unchanged.
\<close>

theorem SetImage_clips:
  assumes "valid ol" "0 \<le> x" "0 \<le> y" "fits img x y"
  shows "\<exists>b'. SetImage ol x y img = Return (None, ol\<lparr>buf := b'\<rparr>)
           \<and> length b' = length (buf ol) \<and> b' ! 0 = buf ol ! 0
           \<and> (\<forall>px py. 0 \<le> px \<and> px < w ol \<and> 0 \<le> py \<and> py < h ol \<longrightarrow>
                 pixel (ol\<lparr>buf := b'\<rparr>) px py =
                   (if x \<le> px \<and> px < x + Dx (Bounds img) \<and> y \<le> py \<and> py < y + Dy (Bounds img)
                    then lit (source_pixel img (px - x) (py - y))
                    else pixel ol px py))
           \<and> (w ol \<le> x \<or> h ol \<le> y \<longrightarrow> b' = buf ol)"
proof -
  from assms(4) have o: "MinX (Bounds img) = 0" "MinY (Bounds img) = 0"
    and lo: "MinInt \<le> MaxX (Bounds img)" "MinInt \<le> MaxY (Bounds img)"
    and hi: "x + MaxX (Bounds img) \<le> MaxInt" "y + MaxY (Bounds img) \<le> MaxInt"
    by (simp_all add: fits_def)
  have dx: "Dx (Bounds img) = MaxX (Bounds img)"
    using o lo hi assms(2) unfolding Dx_def by (simp add: wrap_id)
  have dy: "Dy (Bounds img) = MaxY (Bounds img)"
    using o lo hi assms(3) unfolding Dy_def by (simp add: wrap_id)
  have mn: "MinInt \<le> 0" by (simp add: MinInt_def)
  have sx: "wrap (x + Dx (Bounds img)) = x + Dx (Bounds img)"
    unfolding dx using lo hi assms(2) mn by (intro wrap_id) linarith+
  have sy: "wrap (y + Dy (Bounds img)) = y + Dy (Bounds img)"
    unfolding dy using lo hi assms(3) mn by (intro wrap_id) linarith+
  define endX where "endX = (if x + Dx (Bounds img) \<ge> w ol then w ol else x + Dx (Bounds img))"
  define endY where "endY = (if y + Dy (Bounds img) \<ge> h ol then h ol else y + Dy (Bounds img))"
  have ex: "endX \<le> w ol" and ey: "endY \<le> h ol" by (simp_all add: endX_def endY_def)
  have exm: "endX \<le> MaxInt" using hi(1) by (simp add: endX_def dx)
  have eym: "endY \<le> MaxInt" using hi(2) by (simp add: endY_def dy)
  have cols: "0 + (endX - x) \<le> MaxInt" using exm assms(2) by linarith
  have def: "SetImage ol x y img = SetImage_loop ol img y endX endY x 0"
    by (simp add: SetImage_def Let_def endX_def endY_def sx sy)
  from SetImage_loop_pixels [OF assms(1,2) ex assms(3) ey eym order_refl cols, of img]
  obtain b' where
    run: "SetImage_loop ol img y endX endY x 0 = Return (None, ol\<lparr>buf := b'\<rparr>)"
    and len: "length b' = length (buf ol)" and marker: "b' ! 0 = buf ol ! 0"
    and p: "\<And>px py. 0 \<le> px \<and> px < w ol \<and> 0 \<le> py \<and> py < h ol \<Longrightarrow>
                 pixel (ol\<lparr>buf := b'\<rparr>) px py =
                   (if x \<le> px \<and> px < endX \<and> y \<le> py \<and> py < endY
                    then lit (At img (0 + (px - x)) (py - y))
                    else pixel ol px py)"
    by blast
  have px: "pixel (ol\<lparr>buf := b'\<rparr>) px py =
                   (if x \<le> px \<and> px < x + Dx (Bounds img) \<and> y \<le> py \<and> py < y + Dy (Bounds img)
                    then lit (source_pixel img (px - x) (py - y))
                    else pixel ol px py)"
    if b: "0 \<le> px \<and> px < w ol \<and> 0 \<le> py \<and> py < h ol" for px py
  proof -
    have "px < endX \<longleftrightarrow> px < x + Dx (Bounds img)" using b by (simp add: endX_def)
    moreover have "py < endY \<longleftrightarrow> py < y + Dy (Bounds img)" using b by (simp add: endY_def)
    ultimately show ?thesis using p [OF b] by (simp add: source_pixel_def o)
  qed
  have noop: "b' = buf ol" if "w ol \<le> x \<or> h ol \<le> y"
  proof -
    have "SetImage_loop ol img y endX endY x 0 = Return (None, ol)"
      using that ex ey
      by (auto simp add: SetImage_loop_empty_cols SetImage_loop_empty_rows)
    with run have "ol\<lparr>buf := b'\<rparr> = ol" by simp
    then have "buf (ol\<lparr>buf := b'\<rparr>) = buf ol" by simp
    then show ?thesis by simp
  qed
  show ?thesis using def run len marker px noop by (intro exI [of _ b']) simp
qed

text \<open>
  The hypotheses of C8 hold for the 10x10 white image placed at (126, 60) on the 128x64
  display: the pixels (126, 60) and (127, 63) are lit, the pixel (125, 60) is unchanged.
\<close>

theorem SetImage_clips_witness:
  "valid (panel quiet) \<and> (0::int) \<le> 126 \<and> (0::int) \<le> 60 \<and> fits white 126 60
   \<and> (\<exists>b'. SetImage (panel quiet) 126 60 white = Return (None, (panel quiet)\<lparr>buf := b'\<rparr>)
         \<and> pixel ((panel quiet)\<lparr>buf := b'\<rparr>) 126 60
         \<and> pixel ((panel quiet)\<lparr>buf := b'\<rparr>) 127 63
         \<and> pixel ((panel quiet)\<lparr>buf := b'\<rparr>) 125 60 = pixel (panel quiet) 125 60
         \<and> b' ! 0 = 0x40)"
proof -
  have v: "valid (panel quiet)" by (rule valid_panel)
  have f: "fits white 126 60" by (simp add: fits_def white_def MinInt_def MaxInt_def)
  from SetImage_clips [OF v _ _ f]
  obtain b' where
    run: "SetImage (panel quiet) 126 60 white = Return (None, (panel quiet)\<lparr>buf := b'\<rparr>)"
    and marker: "b' ! 0 = buf (panel quiet) ! 0"
    and p: "\<And>px py. 0 \<le> px \<and> px < w (panel quiet) \<and> 0 \<le> py \<and> py < h (panel quiet) \<Longrightarrow>
                 pixel ((panel quiet)\<lparr>buf := b'\<rparr>) px py =
                   (if 126 \<le> px \<and> px < 126 + Dx (Bounds white) \<and> 60 \<le> py \<and> py < 60 + Dy (Bounds white)
                    then lit (source_pixel white (px - 126) (py - 60))
                    else pixel (panel quiet) px py)"
    by auto
  have g: "w (panel quiet) = 128" "h (panel quiet) = 64" "buf (panel quiet) ! 0 = 0x40"
    by (simp_all add: panel_def)
  have d: "Dx (Bounds white) = 10" "Dy (Bounds white) = 10" "\<And>a b. lit (source_pixel white a b)"
    by (simp_all add: white_def Dx_def Dy_def lit_def source_pixel_def wrap_def)
  have "pixel ((panel quiet)\<lparr>buf := b'\<rparr>) 126 60" using p [of 126 60] g d by simp
  moreover have "pixel ((panel quiet)\<lparr>buf := b'\<rparr>) 127 63" using p [of 127 63] g d by simp
  moreover have "pixel ((panel quiet)\<lparr>buf := b'\<rparr>) 125 60 = pixel (panel quiet) 125 60"
    using p [of 125 60] g d by simp
  ultimately show ?thesis using v f run marker g by auto
qed

text \<open>
  The claim as stated fails in three ways. On the 128x12 display that \<^verbatim>\<open>OpenWithI2c\<close>
  returns for the height 12, \<^verbatim>\<open>SetImage\<close> at (0, 8) panics. The one white pixel of a source
  whose bounds start at (5, 5), placed at (0, 0) on the 128x64 display, is written as off,
  since the source is read at (0, 0) and not at the corner of its bounds. For a white
  source \<open>MaxInt\<close> pixels wide placed at (1, 0), the end column \<open>x + imgW\<close> wraps around
  to \<open>MinInt\<close> and nothing is written, although columns 1 to 127 are in bounds.
\<close>

theorem SetImage_breaks:
  "OpenWithI2c quiet 12 = Return (Inr (short quiet))
   \<and> SetImage (short quiet) 0 8 corner = Panic ''index out of range''
   \<and> lit (source_pixel corner 0 0)
   \<and> SetImage (panel quiet) 0 0 corner =
       Return (None, (panel quiet)\<lparr>buf := 0x40 # 0 # replicate 1023 0\<rparr>)
   \<and> \<not> pixel ((panel quiet)\<lparr>buf := 0x40 # 0 # replicate 1023 0\<rparr>) 0 0
   \<and> lit (source_pixel wide 0 0)
   \<and> SetImage (panel quiet) 1 0 wide = Return (None, panel quiet)
   \<and> \<not> pixel (panel quiet) 1 0"
proof -
  have a: "OpenWithI2c quiet 12 = Return (Inr (short quiet))"
    by (simp add: OpenWithI2c_def make_buf_eq ssd1306_LCDWIDTH_def Let_def wrap_def
      signed_divide_int_def short_def)
  have b: "SetImage (short quiet) 0 8 corner = Panic ''index out of range''"
    by (simp add: SetImage_def Let_def Dx_def Dy_def wrap_def corner_def short_def
      SetImage_loop.simps SetImage_col.simps SetPixel_def threshold_def signed_divide_int_def)
  have c: "lit (source_pixel corner 0 0)" "lit (source_pixel wide 0 0)"
    by (simp_all add: lit_def source_pixel_def corner_def wide_def)
  have d: "SetImage (panel quiet) 0 0 corner =
       Return (None, (panel quiet)\<lparr>buf := 0x40 # 0 # replicate 1023 0\<rparr>)"
    by (simp add: SetImage_def Let_def Dx_def Dy_def wrap_def corner_def panel_def
      SetImage_loop.simps SetImage_col.simps SetPixel_def threshold_def replicate_marker)
  have e: "\<not> pixel ((panel quiet)\<lparr>buf := 0x40 # 0 # replicate 1023 0\<rparr>) 0 0"
    "\<not> pixel (panel quiet) 1 0"
    by (simp_all add: pixel_def pixel_index_def panel_def)
  have f: "SetImage (panel quiet) 1 0 wide = Return (None, panel quiet)"
    by (simp add: SetImage_def Let_def Dx_def Dy_def wrap_def wide_def panel_def
      SetImage_loop.simps)
  show ?thesis using a b c d e f by simp
qed

section \<open>Flushing\<close>

text \<open>
  Claim C4, as amended. A flush first writes the 8-byte framing sequence, whose column
  start is 0 and whose page range is 0 to 7. When that write fails, the flush returns its
  error and writes nothing else. Otherwise it writes the whole buffer, marker byte
  included, as one second write, and returns the result of that write.
\<close>

theorem Draw_two_writes:
  "Draw ol =
     (case faults (dev ol) (length (writes (dev ol))) of
        Some e \<Rightarrow> (Some e, ol\<lparr>dev := (dev ol)\<lparr>writes := writes (dev ol) @ [framing]\<rparr>\<rparr>)
      | None \<Rightarrow>
          (faults (dev ol) (Suc (length (writes (dev ol)))),
           ol\<lparr>dev := (dev ol)\<lparr>writes := writes (dev ol) @ [framing, buf ol]\<rparr>\<rparr>))
   \<and> length framing = 8
   \<and> take 4 framing = [0xa4, 0x40, 0x21, 0]
   \<and> drop 5 framing = [0x22, 0, 7]"
  by (simp add: Draw_def dev_Write_def framing_def split: option.splits)

text \<open>
  The claim as stated fails twice on the 128x64 controller: when the first write fails
  the flush performs one write, not two; and the column end address in the framing
  sequence is 128, not width - 1 = 127.
\<close>

theorem Draw_one_write_and_column_end:
  "fst (Draw (panel flaky)) = Some (TransportError 5)
   \<and> writes (dev (snd (Draw (panel flaky)))) = [framing]
   \<and> framing ! 4 = 128
   \<and> framing ! 4 \<noteq> word_of_int (w (panel flaky) - 1)"
  by (simp add: Draw_def dev_Write_def framing_def panel_def flaky_def
      ssd1306_LCDWIDTH_def)

text \<open>
  Claim C9. \<^verbatim>\<open>Draw\<close> never changes the pixel buffer (nor the geometry), whatever the
  transport does: whether both writes succeed, the first fails or the second fails.
\<close>

theorem Draw_keeps_buffer:
  "buf (snd (Draw ol)) = buf ol \<and> w (snd (Draw ol)) = w ol \<and> h (snd (Draw ol)) = h ol"
  by (simp add: Draw_def dev_Write_def split: option.splits)

section \<open>Scrolling\<close>

text \<open>
  Claim C10. \<^verbatim>\<open>EnableScroll\<close> and \<^verbatim>\<open>DisableScroll\<close> panic for every receiver and all
  arguments: they never return, neither a nil nor a non-nil error.
\<close>

theorem scroll_always_panics:
  "EnableScroll ol startY endY = Panic ''not implemented''
   \<and> DisableScroll ol = Panic ''not implemented''
   \<and> (\<forall>r. EnableScroll ol startY endY \<noteq> Return r)
   \<and> (\<forall>r. DisableScroll ol \<noteq> Return r)"
  by (simp add: EnableScroll_def DisableScroll_def)

end
